theory Spec2Isabelle
  imports Main
begin

section \<open>The rules library as seen by the engine\<close>

text \<open>
  The engine (\<^verbatim>\<open>MinimaxAgent\<close>: \<^verbatim>\<open>evaluateBoard\<close>, \<^verbatim>\<open>minimax\<close>, \<^verbatim>\<open>findBestMove\<close>) does not
  implement chess. It calls the methods of a \<^verbatim>\<open>Chess\<close> object of the rules library. The
  library is a parameter of the embedding: a record of the methods the engine calls, over an
  arbitrary type \<open>'g\<close> of game states.
\<close>

datatype Color = White | Black

text \<open>
  The library's piece symbols are the lower-case letters \<^verbatim>\<open>'p' 'n' 'b' 'r' 'q' 'k'\<close>, for
  both colours; the colour is a separate field of a square.
\<close>

datatype PieceSymbol = Pawn | Knight | Bishop | Rook | Queen | King

fun symbol :: "PieceSymbol \<Rightarrow> string" where
  "symbol Pawn = ''p''"
| "symbol Knight = ''n''"
| "symbol Bishop = ''b''"
| "symbol Rook = ''r''"
| "symbol Queen = ''q''"
| "symbol King = ''k''"

record Piece =
  type :: PieceSymbol
  color :: Color

text \<open>
  \<^verbatim>\<open>game.board()\<close>: eight rows of eight squares, row 0 being rank 8 and column 0 file a;
  an empty square is \<^verbatim>\<open>null\<close>.
\<close>

type_synonym Board = "Piece option list list"

text \<open>
  A verbose move of the library. The engine reads its \<^verbatim>\<open>san\<close> and hands the object back
  to \<^verbatim>\<open>game.move\<close>; \<open>lan\<close> (origin, target, promotion) stands for the other fields.
\<close>

record Move =
  san :: string
  lan :: string

record 'g Chess =
  isCheckmate :: "'g \<Rightarrow> bool"
  isDraw :: "'g \<Rightarrow> bool"
  isStalemate :: "'g \<Rightarrow> bool"
  isThreefoldRepetition :: "'g \<Rightarrow> bool"
  isInsufficientMaterial :: "'g \<Rightarrow> bool"
  isGameOver :: "'g \<Rightarrow> bool"
  turn :: "'g \<Rightarrow> Color"
  board :: "'g \<Rightarrow> Board"
  moves :: "'g \<Rightarrow> Move list"
  move :: "'g \<Rightarrow> Move \<Rightarrow> 'g"
  undo :: "'g \<Rightarrow> 'g"
  fen :: "'g \<Rightarrow> string"
  load :: "string \<Rightarrow> 'g"

section \<open>Scores\<close>

text \<open>
  Scores are JavaScript numbers. The evaluation only adds and multiplies small integers, and
  the search starts its running best and its window at \<^verbatim>\<open>-Infinity\<close> and \<^verbatim>\<open>Infinity\<close>:
  the integers with the two infinities, ordered as the numbers are.
\<close>

datatype number = NegInfinity | Num int | Infinity

instantiation number :: linorder
begin

fun less_eq_number :: "number \<Rightarrow> number \<Rightarrow> bool" where
  "less_eq_number NegInfinity y = True"
| "less_eq_number (Num a) NegInfinity = False"
| "less_eq_number (Num a) (Num b) = (a \<le> b)"
| "less_eq_number (Num a) Infinity = True"
| "less_eq_number Infinity Infinity = True"
| "less_eq_number Infinity y = False"

definition less_number :: "number \<Rightarrow> number \<Rightarrow> bool" where
  "less_number x y = (x \<le> y \<and> \<not> y \<le> x)"

instance
proof
  fix x y z :: number
  show "(x < y) = (x \<le> y \<and> \<not> y \<le> x)"
    by (simp add: less_number_def)
  show "x \<le> x"
    by (cases x) simp_all
  show "x \<le> y \<Longrightarrow> y \<le> z \<Longrightarrow> x \<le> z"
    by (cases x; cases y; cases z) simp_all
  show "x \<le> y \<Longrightarrow> y \<le> x \<Longrightarrow> x = y"
    by (cases x; cases y) simp_all
  show "x \<le> y \<or> y \<le> x"
    by (cases x; cases y) auto
qed

end

section \<open>The evaluator\<close>

text \<open>The two constant tables, as objects keyed by strings.\<close>

definition PIECE_VALUES :: "(string \<times> int) list" where
  "PIECE_VALUES =
    [(''p'', -100), (''n'', -320), (''b'', -330), (''r'', -500), (''q'', -900), (''k'', -20000),
     (''P'', 100), (''N'', 320), (''B'', 330), (''R'', 500), (''Q'', 900), (''K'', 20000)]"

definition POSITION_BONUSES :: "(string \<times> int list list) list" where
  "POSITION_BONUSES =
    [(''P'',
      [[0, 0, 0, 0, 0, 0, 0, 0],
       [50, 50, 50, 50, 50, 50, 50, 50],
       [10, 10, 20, 30, 30, 20, 10, 10],
       [5, 5, 10, 25, 25, 10, 5, 5],
       [0, 0, 0, 20, 20, 0, 0, 0],
       [5, -5, -10, 0, 0, -10, -5, 5],
       [5, 10, 10, -20, -20, 10, 10, 5],
       [0, 0, 0, 0, 0, 0, 0, 0]]),
     (''N'',
      [[-50, -40, -30, -30, -30, -30, -40, -50],
       [-40, -20, 0, 0, 0, 0, -20, -40],
       [-30, 0, 10, 15, 15, 10, 0, -30],
       [-30, 5, 15, 20, 20, 15, 5, -30],
       [-30, 0, 15, 20, 20, 15, 0, -30],
       [-30, 5, 10, 15, 15, 10, 5, -30],
       [-40, -20, 0, 5, 5, 0, -20, -40],
       [-50, -40, -30, -30, -30, -30, -40, -50]]),
     (''B'',
      [[-20, -10, -10, -10, -10, -10, -10, -20],
       [-10, 0, 0, 0, 0, 0, 0, -10],
       [-10, 0, 10, 10, 10, 10, 0, -10],
       [-10, 5, 5, 10, 10, 5, 5, -10],
       [-10, 0, 5, 10, 10, 5, 0, -10],
       [-10, 10, 10, 10, 10, 10, 10, -10],
       [-10, 5, 0, 0, 0, 0, 5, -10],
       [-20, -10, -10, -10, -10, -10, -10, -20]]),
     (''R'',
      [[0, 0, 0, 0, 0, 0, 0, 0],
       [5, 10, 10, 10, 10, 10, 10, 5],
       [-5, 0, 0, 0, 0, 0, 0, -5],
       [-5, 0, 0, 0, 0, 0, 0, -5],
       [-5, 0, 0, 0, 0, 0, 0, -5],
       [-5, 0, 0, 0, 0, 0, 0, -5],
       [-5, 0, 0, 0, 0, 0, 0, -5],
       [0, 0, 0, 5, 5, 0, 0, 0]]),
     (''Q'',
      [[-20, -10, -10, -5, -5, -10, -10, -20],
       [-10, 0, 0, 0, 0, 0, 0, -10],
       [-10, 0, 5, 5, 5, 5, 0, -10],
       [-5, 0, 5, 5, 5, 5, 0, -5],
       [0, 0, 5, 5, 5, 5, 0, -5],
       [-10, 5, 5, 5, 5, 5, 0, -10],
       [-10, 0, 5, 0, 0, 0, 0, -10],
       [-20, -10, -10, -5, -5, -10, -10, -20]]),
     (''K'',
      [[-30, -40, -40, -50, -50, -40, -40, -30],
       [-30, -40, -40, -50, -50, -40, -40, -30],
       [-30, -40, -40, -50, -50, -40, -40, -30],
       [-30, -40, -40, -50, -50, -40, -40, -30],
       [-20, -30, -30, -40, -40, -30, -30, -20],
       [-10, -20, -20, -20, -20, -20, -20, -10],
       [20, 20, 0, 0, 0, 0, 20, 20],
       [20, 30, 10, 0, 0, 10, 30, 20]])]"

text \<open>\<^verbatim>\<open>String.prototype.toUpperCase\<close> on the ASCII letters.\<close>

definition upper_char :: "char \<Rightarrow> char" where
  "upper_char c =
    (let k = (of_char c :: nat) in if 97 \<le> k \<and> k \<le> 122 then char_of (k - 32) else c)"

definition toUpperCase :: "string \<Rightarrow> string" where
  "toUpperCase s = map upper_char s"

text \<open>
  \<^verbatim>\<open>getPositionBonus(piece, row, col)\<close>: no table for the piece gives 0; a piece string that
  is its own upper case reads the table at \<^verbatim>\<open>[7 - row][col]\<close>; any other reads
  \<^verbatim>\<open>[row][col]\<close> and negates.
\<close>

definition getPositionBonus :: "string \<Rightarrow> nat \<Rightarrow> nat \<Rightarrow> int" where
  "getPositionBonus piece row col =
    (let pieceType = toUpperCase piece in
     case map_of POSITION_BONUSES pieceType of
       None \<Rightarrow> 0
     | Some bonus \<Rightarrow>
         if piece = toUpperCase piece then bonus ! (7 - row) ! col
         else - (bonus ! row ! col))"

text \<open>
  The two additions the board scan makes for an occupied square: the material value
  \<^verbatim>\<open>PIECE_VALUES[square.type] * (square.color === 'w' ? 1 : -1)\<close> and the position bonus
  \<^verbatim>\<open>getPositionBonus(square.type, row, col)\<close>. Both are keyed by \<^verbatim>\<open>square.type\<close>, the
  library's lower-case symbol. Every symbol is a key of \<open>PIECE_VALUES\<close> (lemma
  \<open>PIECE_VALUES_total\<close> below), so the lookup never misses.
\<close>

definition material_term :: "Piece \<Rightarrow> int" where
  "material_term square =
    the (map_of PIECE_VALUES (symbol (type square))) * (if color square = White then 1 else -1)"

definition bonus_term :: "Piece \<Rightarrow> nat \<Rightarrow> nat \<Rightarrow> int" where
  "bonus_term square row col = getPositionBonus (symbol (type square)) row col"

definition scan_square :: "Board \<Rightarrow> nat \<Rightarrow> nat \<Rightarrow> int \<Rightarrow> int" where
  "scan_square b row col score =
    (case b ! row ! col of
       None \<Rightarrow> score
     | Some square \<Rightarrow> score + material_term square + bonus_term square row col)"

definition scan_board :: "Board \<Rightarrow> int" where
  "scan_board b =
    fold (\<lambda>row score. fold (\<lambda>col score. scan_square b row col score) [0..<8] score) [0..<8] 0"

definition evaluateBoard :: "'g Chess \<Rightarrow> 'g \<Rightarrow> int" where
  "evaluateBoard C game =
    (if isCheckmate C game then (if turn C game = White then -100000 else 100000)
     else if isDraw C game \<or> isStalemate C game \<or> isThreefoldRepetition C game
             \<or> isInsufficientMaterial C game then 0
     else
       let score = scan_board (board C game);
           ms = moves C game
       in score + int (length ms) * (if turn C game = White then 1 else -1) * 5)"

section \<open>The searcher\<close>

text \<open>
  \<^verbatim>\<open>{ score: number; move?: string }\<close>: the field \<open>moveSan\<close> is the optional \<^verbatim>\<open>move\<close>.
\<close>

record Evaluation =
  score :: number
  moveSan :: "string option"

text \<open>
  The two move loops of \<^verbatim>\<open>minimax\<close>. The game object is mutated in place by
  \<^verbatim>\<open>game.move\<close> and \<^verbatim>\<open>game.undo\<close>, so the game state is threaded through and returned.
  \<open>child\<close> is the recursive call on the position after the move, with the current window.
\<close>

fun max_loop ::
  "'g Chess \<Rightarrow> ('g \<Rightarrow> number \<Rightarrow> number \<Rightarrow> 'g \<times> Evaluation) \<Rightarrow> Move list \<Rightarrow> 'g \<Rightarrow>
   number \<Rightarrow> number \<Rightarrow> number \<Rightarrow> Move option \<Rightarrow> 'g \<times> Evaluation" where
  "max_loop C child [] game alpha beta maxScore bestMove =
    (game, \<lparr>score = maxScore, moveSan = map_option san bestMove\<rparr>)"
| "max_loop C child (mv # rest) game alpha beta maxScore bestMove =
    (let game1 = move C game mv;
         (game2, evaluation) = child game1 alpha beta;
         game3 = undo C game2;
         (maxScore', bestMove') =
           (if score evaluation > maxScore then (score evaluation, Some mv)
            else (maxScore, bestMove));
         alpha' = max alpha maxScore'
     in if beta \<le> alpha'
        then (game3, \<lparr>score = maxScore', moveSan = map_option san bestMove'\<rparr>)
        else max_loop C child rest game3 alpha' beta maxScore' bestMove')"

fun min_loop ::
  "'g Chess \<Rightarrow> ('g \<Rightarrow> number \<Rightarrow> number \<Rightarrow> 'g \<times> Evaluation) \<Rightarrow> Move list \<Rightarrow> 'g \<Rightarrow>
   number \<Rightarrow> number \<Rightarrow> number \<Rightarrow> Move option \<Rightarrow> 'g \<times> Evaluation" where
  "min_loop C child [] game alpha beta minScore bestMove =
    (game, \<lparr>score = minScore, moveSan = map_option san bestMove\<rparr>)"
| "min_loop C child (mv # rest) game alpha beta minScore bestMove =
    (let game1 = move C game mv;
         (game2, evaluation) = child game1 alpha beta;
         game3 = undo C game2;
         (minScore', bestMove') =
           (if score evaluation < minScore then (score evaluation, Some mv)
            else (minScore, bestMove));
         beta' = min beta minScore'
     in if beta' \<le> alpha
        then (game3, \<lparr>score = minScore', moveSan = map_option san bestMove'\<rparr>)
        else min_loop C child rest game3 alpha beta' minScore' bestMove')"

text \<open>
  \<^verbatim>\<open>minimax(game, depth, alpha, beta, isMaximizingPlayer)\<close>, for a depth that is a natural
  number. It returns the game object's state after the call together with the result.
\<close>

fun minimax ::
  "'g Chess \<Rightarrow> 'g \<Rightarrow> nat \<Rightarrow> number \<Rightarrow> number \<Rightarrow> bool \<Rightarrow> 'g \<times> Evaluation" where
  "minimax C game 0 alpha beta isMaximizingPlayer =
    (game, \<lparr>score = Num (evaluateBoard C game), moveSan = None\<rparr>)"
| "minimax C game (Suc d) alpha beta isMaximizingPlayer =
    (if isGameOver C game
     then (game, \<lparr>score = Num (evaluateBoard C game), moveSan = None\<rparr>)
     else
       let ms = moves C game in
       if isMaximizingPlayer
       then max_loop C (\<lambda>g a b. minimax C g d a b False) ms game alpha beta NegInfinity None
       else min_loop C (\<lambda>g a b. minimax C g d a b True) ms game alpha beta Infinity None)"

text \<open>
  \<^verbatim>\<open>findBestMove(game, depth, computerColor)\<close>. Two game objects are alive during the call,
  the caller's and the copy made by \<^verbatim>\<open>new Chess(game.fen())\<close>, so the objects live in a
  store: a list of game states addressed by position. The caller's object is the reference
  \<open>game\<close>; the copy is allocated at the end of the store. \<^verbatim>\<open>move || null\<close> turns a missing
  and an empty string into \<^verbatim>\<open>null\<close>.
\<close>

definition findBestMove ::
  "'g Chess \<Rightarrow> 'g list \<Rightarrow> nat \<Rightarrow> nat \<Rightarrow> Color \<Rightarrow> 'g list \<times> string option" where
  "findBestMove C store game depth computerColor =
    (let gameCopy = length store;
         store1 = store @ [load C (fen C (store ! game))];
         isMaximizingPlayer = (turn C (store1 ! gameCopy) = computerColor);
         (copy', result) =
           minimax C (store1 ! gameCopy) depth NegInfinity Infinity isMaximizingPlayer;
         store2 = store1[gameCopy := copy']
     in (store2,
         case moveSan result of
           None \<Rightarrow> None
         | Some s \<Rightarrow> if s = [] then None else Some s))"

section \<open>Exhaustive minimax\<close>

text \<open>
  Plain minimax without a window and without pruning, over the same enumeration order and
  with the same tie rule (the first move with a strictly better score is kept). The child of
  a move is the position after the move; nothing is undone, because nothing is shared.
\<close>

fun exhaustive_max :: "(Move \<Rightarrow> number) \<Rightarrow> Move list \<Rightarrow> number \<Rightarrow> Move option \<Rightarrow> Evaluation" where
  "exhaustive_max val [] best bestMove = \<lparr>score = best, moveSan = map_option san bestMove\<rparr>"
| "exhaustive_max val (mv # rest) best bestMove =
    (if val mv > best then exhaustive_max val rest (val mv) (Some mv)
     else exhaustive_max val rest best bestMove)"

fun exhaustive_min :: "(Move \<Rightarrow> number) \<Rightarrow> Move list \<Rightarrow> number \<Rightarrow> Move option \<Rightarrow> Evaluation" where
  "exhaustive_min val [] best bestMove = \<lparr>score = best, moveSan = map_option san bestMove\<rparr>"
| "exhaustive_min val (mv # rest) best bestMove =
    (if val mv < best then exhaustive_min val rest (val mv) (Some mv)
     else exhaustive_min val rest best bestMove)"

fun exhaustive :: "'g Chess \<Rightarrow> 'g \<Rightarrow> nat \<Rightarrow> bool \<Rightarrow> Evaluation" where
  "exhaustive C game 0 isMaximizingPlayer =
    \<lparr>score = Num (evaluateBoard C game), moveSan = None\<rparr>"
| "exhaustive C game (Suc d) isMaximizingPlayer =
    (if isGameOver C game then \<lparr>score = Num (evaluateBoard C game), moveSan = None\<rparr>
     else if isMaximizingPlayer
     then exhaustive_max (\<lambda>mv. score (exhaustive C (move C game mv) d False))
            (moves C game) NegInfinity None
     else exhaustive_min (\<lambda>mv. score (exhaustive C (move C game mv) d True))
            (moves C game) Infinity None)"

section \<open>What the engine relies on from the rules library\<close>

text \<open>
  \<^verbatim>\<open>undo\<close> takes back the move just made: after \<^verbatim>\<open>game.move(m)\<close> for a move \<open>m\<close> of
  \<^verbatim>\<open>game.moves()\<close>, \<^verbatim>\<open>game.undo()\<close> restores the state before the move.
\<close>

definition undo_reverts :: "'g Chess \<Rightarrow> bool" where
  "undo_reverts C = (\<forall>g m. m \<in> set (moves C g) \<longrightarrow> undo C (move C g m) = g)"

text \<open>A game that is not over has a legal move.\<close>

definition live_has_moves :: "'g Chess \<Rightarrow> bool" where
  "live_has_moves C = (\<forall>g. \<not> isGameOver C g \<longrightarrow> moves C g \<noteq> [])"

section \<open>Mirrored positions\<close>

definition opposite :: "Color \<Rightarrow> Color" where
  "opposite c = (if c = White then Black else White)"

definition flip_piece :: "Piece option \<Rightarrow> Piece option" where
  "flip_piece sq = map_option (\<lambda>pc. pc\<lparr>color := opposite (color pc)\<rparr>) sq"

text \<open>Colours swapped and ranks mirrored; \<open>rotate_board\<close> mirrors the files as well.\<close>

definition flip_board :: "Board \<Rightarrow> Board" where
  "flip_board b = rev (map (map flip_piece) b)"

definition rotate_board :: "Board \<Rightarrow> Board" where
  "rotate_board b = rev (map (\<lambda>r. rev (map flip_piece r)) b)"

section \<open>A tabulated rules oracle and some chess positions\<close>

text \<open>
  A rules oracle given by a table of positions, used to run the engine on concrete chess
  positions. A position is named by its FEN; the game object holds the name of the current
  position and the names of the positions before it (the move history). As in the library,
  checkmate and stalemate are "no legal move" with and without check, a draw is the
  fifty-move rule, stalemate, insufficient material or threefold repetition, and the game is
  over on checkmate, stalemate or draw.
\<close>

record Node =
  in_check :: bool
  fifty_moves :: bool
  threefold :: bool
  insufficient :: bool
  to_move :: Color
  squares :: Board
  legal :: "(Move \<times> string) list"

record TableGame =
  position :: string
  history :: "string list"

definition table_chess :: "(string \<Rightarrow> Node) \<Rightarrow> TableGame Chess" where
  "table_chess tab =
    \<lparr>isCheckmate = (\<lambda>g. in_check (tab (position g)) \<and> legal (tab (position g)) = []),
     isDraw = (\<lambda>g. fifty_moves (tab (position g))
                 \<or> (\<not> in_check (tab (position g)) \<and> legal (tab (position g)) = [])
                 \<or> insufficient (tab (position g)) \<or> threefold (tab (position g))),
     isStalemate = (\<lambda>g. \<not> in_check (tab (position g)) \<and> legal (tab (position g)) = []),
     isThreefoldRepetition = (\<lambda>g. threefold (tab (position g))),
     isInsufficientMaterial = (\<lambda>g. insufficient (tab (position g))),
     isGameOver = (\<lambda>g. legal (tab (position g)) = [] \<or> fifty_moves (tab (position g))
                 \<or> insufficient (tab (position g)) \<or> threefold (tab (position g))),
     turn = (\<lambda>g. to_move (tab (position g))),
     board = (\<lambda>g. squares (tab (position g))),
     moves = (\<lambda>g. map fst (legal (tab (position g)))),
     move = (\<lambda>g m. case map_of (legal (tab (position g))) m of
                      None \<Rightarrow> g
                    | Some s \<Rightarrow> \<lparr>position = s, history = position g # history g\<rparr>),
     undo = (\<lambda>g. case history g of
                    [] \<Rightarrow> g
                  | s # hs \<Rightarrow> \<lparr>position = s, history = hs\<rparr>),
     fen = position,
     load = (\<lambda>s. \<lparr>position = s, history = []\<rparr>)\<rparr>"

text \<open>A board from a list of occupied squares, keyed by (row, column).\<close>

definition place :: "((nat \<times> nat) \<times> Piece) list \<Rightarrow> Board" where
  "place ps = map (\<lambda>row. map (\<lambda>col. map_of ps (row, col)) [0..<8]) [0..<8]"

definition pc :: "Color \<Rightarrow> PieceSymbol \<Rightarrow> Piece" where
  "pc c t = \<lparr>type = t, color = c\<rparr>"

definition mv :: "string \<Rightarrow> string \<Rightarrow> Move" where
  "mv s l = \<lparr>san = s, lan = l\<rparr>"

definition quiet :: "Color \<Rightarrow> Board \<Rightarrow> (Move \<times> string) list \<Rightarrow> Node" where
  "quiet c b ms =
    \<lparr>in_check = False, fifty_moves = False, threefold = False, insufficient = False,
     to_move = c, squares = b, legal = ms\<rparr>"

text \<open>
  The positions. Each lists the legal moves in the library's enumeration order with the FEN
  after the move. \<open>back_rank\<close> is tabulated with its five successors; elsewhere the
  successors are named only.
\<close>

definition pawn_ending_fen :: string where
  "pawn_ending_fen = ''4k3/8/8/8/8/8/4P3/4K3 w - - 0 1''"

definition pawn_ending :: Node where
  "pawn_ending =
    \<lparr>in_check = False, fifty_moves = False, threefold = False, insufficient = False,
     to_move = White,
     squares = place [((0, 4), pc Black King), ((6, 4), pc White Pawn), ((7, 4), pc White King)],
     legal =
      [(mv ''e3'' ''e2e3'', ''4k3/8/8/8/8/4P3/8/4K3 b - - 0 1''),
       (mv ''e4'' ''e2e4'', ''4k3/8/8/8/4P3/8/8/4K3 b - - 0 1''),
       (mv ''Kd2'' ''e1d2'', ''4k3/8/8/8/8/8/3KP3/8 b - - 1 1''),
       (mv ''Kf2'' ''e1f2'', ''4k3/8/8/8/8/8/4PK2/8 b - - 1 1''),
       (mv ''Kf1'' ''e1f1'', ''4k3/8/8/8/8/8/4P3/5K2 b - - 1 1''),
       (mv ''Kd1'' ''e1d1'', ''4k3/8/8/8/8/8/4P3/3K4 b - - 1 1'')]\<rparr>"

definition pawn_ending_flipped_fen :: string where
  "pawn_ending_flipped_fen = ''4k3/4p3/8/8/8/8/8/4K3 b - - 0 1''"

definition pawn_ending_flipped :: Node where
  "pawn_ending_flipped =
    \<lparr>in_check = False, fifty_moves = False, threefold = False, insufficient = False,
     to_move = Black,
     squares = place [((0, 4), pc Black King), ((1, 4), pc Black Pawn), ((7, 4), pc White King)],
     legal =
      [(mv ''Kf8'' ''e8f8'', ''5k2/4p3/8/8/8/8/8/4K3 w - - 1 2''),
       (mv ''Kf7'' ''e8f7'', ''8/4pk2/8/8/8/8/8/4K3 w - - 1 2''),
       (mv ''Kd7'' ''e8d7'', ''8/3kp3/8/8/8/8/8/4K3 w - - 1 2''),
       (mv ''Kd8'' ''e8d8'', ''3k4/4p3/8/8/8/8/8/4K3 w - - 1 2''),
       (mv ''e6'' ''e7e6'', ''4k3/8/4p3/8/8/8/8/4K3 w - - 0 2''),
       (mv ''e5'' ''e7e5'', ''4k3/8/8/4p3/8/8/8/4K3 w - - 0 2'')]\<rparr>"

definition mate_at_fifty_fen :: string where
  "mate_at_fifty_fen = ''7k/6Q1/6K1/8/8/8/8/8 b - - 100 60''"

definition mate_at_fifty :: Node where
  "mate_at_fifty =
    \<lparr>in_check = True, fifty_moves = True, threefold = False, insufficient = False,
     to_move = Black,
     squares = place [((0, 7), pc Black King), ((1, 6), pc White Queen), ((2, 6), pc White King)],
     legal =
      []\<rparr>"

definition bare_kings_fen :: string where
  "bare_kings_fen = ''4k3/8/8/8/8/8/8/4K3 w - - 0 1''"

definition bare_kings :: Node where
  "bare_kings =
    \<lparr>in_check = False, fifty_moves = False, threefold = False, insufficient = True,
     to_move = White,
     squares = place [((0, 4), pc Black King), ((7, 4), pc White King)],
     legal =
      [(mv ''Kd2'' ''e1d2'', ''4k3/8/8/8/8/8/3K4/8 b - - 1 1''),
       (mv ''Ke2'' ''e1e2'', ''4k3/8/8/8/8/8/4K3/8 b - - 1 1''),
       (mv ''Kf2'' ''e1f2'', ''4k3/8/8/8/8/8/5K2/8 b - - 1 1''),
       (mv ''Kf1'' ''e1f1'', ''4k3/8/8/8/8/8/8/5K2 b - - 1 1''),
       (mv ''Kd1'' ''e1d1'', ''4k3/8/8/8/8/8/8/3K4 b - - 1 1'')]\<rparr>"

definition back_rank_fen :: string where
  "back_rank_fen = ''4k3/8/8/8/8/8/6PP/r3R2K b - - 0 1''"

definition back_rank :: Node where
  "back_rank =
    \<lparr>in_check = True, fifty_moves = False, threefold = False, insufficient = False,
     to_move = Black,
     squares = place [((0, 4), pc Black King), ((6, 6), pc White Pawn), ((6, 7), pc White Pawn), ((7, 0), pc Black Rook), ((7, 4), pc White Rook), ((7, 7), pc White King)],
     legal =
      [(mv ''Kf8'' ''e8f8'', ''5k2/8/8/8/8/8/6PP/r3R2K w - - 1 2''),
       (mv ''Kf7'' ''e8f7'', ''8/5k2/8/8/8/8/6PP/r3R2K w - - 1 2''),
       (mv ''Kd7'' ''e8d7'', ''8/3k4/8/8/8/8/6PP/r3R2K w - - 1 2''),
       (mv ''Kd8'' ''e8d8'', ''3k4/8/8/8/8/8/6PP/r3R2K w - - 1 2''),
       (mv ''Rxe1#'' ''a1e1'', ''4k3/8/8/8/8/8/6PP/4r2K w - - 0 2'')]\<rparr>"

definition after_Kf8_fen :: string where
  "after_Kf8_fen = ''5k2/8/8/8/8/8/6PP/r3R2K w - - 1 2''"

definition after_Kf8 :: Node where
  "after_Kf8 =
    \<lparr>in_check = False, fifty_moves = False, threefold = False, insufficient = False,
     to_move = White,
     squares = place [((0, 5), pc Black King), ((6, 6), pc White Pawn), ((6, 7), pc White Pawn), ((7, 0), pc Black Rook), ((7, 4), pc White Rook), ((7, 7), pc White King)],
     legal =
      [(mv ''g3'' ''g2g3'', ''5k2/8/8/8/8/6P1/7P/r3R2K b - - 0 2''),
       (mv ''g4'' ''g2g4'', ''5k2/8/8/8/6P1/8/7P/r3R2K b - - 0 2''),
       (mv ''h3'' ''h2h3'', ''5k2/8/8/8/8/7P/6P1/r3R2K b - - 0 2''),
       (mv ''h4'' ''h2h4'', ''5k2/8/8/8/7P/8/6P1/r3R2K b - - 0 2''),
       (mv ''Rf1+'' ''e1f1'', ''5k2/8/8/8/8/8/6PP/r4R1K b - - 2 2''),
       (mv ''Rg1'' ''e1g1'', ''5k2/8/8/8/8/8/6PP/r5RK b - - 2 2''),
       (mv ''Rd1'' ''e1d1'', ''5k2/8/8/8/8/8/6PP/r2R3K b - - 2 2''),
       (mv ''Rc1'' ''e1c1'', ''5k2/8/8/8/8/8/6PP/r1R4K b - - 2 2''),
       (mv ''Rb1'' ''e1b1'', ''5k2/8/8/8/8/8/6PP/rR5K b - - 2 2''),
       (mv ''Rxa1'' ''e1a1'', ''5k2/8/8/8/8/8/6PP/R6K b - - 0 2''),
       (mv ''Kg1'' ''h1g1'', ''5k2/8/8/8/8/8/6PP/r3R1K1 b - - 2 2'')]\<rparr>"

definition after_Kf7_fen :: string where
  "after_Kf7_fen = ''8/5k2/8/8/8/8/6PP/r3R2K w - - 1 2''"

definition after_Kf7 :: Node where
  "after_Kf7 =
    \<lparr>in_check = False, fifty_moves = False, threefold = False, insufficient = False,
     to_move = White,
     squares = place [((1, 5), pc Black King), ((6, 6), pc White Pawn), ((6, 7), pc White Pawn), ((7, 0), pc Black Rook), ((7, 4), pc White Rook), ((7, 7), pc White King)],
     legal =
      [(mv ''g3'' ''g2g3'', ''8/5k2/8/8/8/6P1/7P/r3R2K b - - 0 2''),
       (mv ''g4'' ''g2g4'', ''8/5k2/8/8/6P1/8/7P/r3R2K b - - 0 2''),
       (mv ''h3'' ''h2h3'', ''8/5k2/8/8/8/7P/6P1/r3R2K b - - 0 2''),
       (mv ''h4'' ''h2h4'', ''8/5k2/8/8/7P/8/6P1/r3R2K b - - 0 2''),
       (mv ''Rf1+'' ''e1f1'', ''8/5k2/8/8/8/8/6PP/r4R1K b - - 2 2''),
       (mv ''Rg1'' ''e1g1'', ''8/5k2/8/8/8/8/6PP/r5RK b - - 2 2''),
       (mv ''Rd1'' ''e1d1'', ''8/5k2/8/8/8/8/6PP/r2R3K b - - 2 2''),
       (mv ''Rc1'' ''e1c1'', ''8/5k2/8/8/8/8/6PP/r1R4K b - - 2 2''),
       (mv ''Rb1'' ''e1b1'', ''8/5k2/8/8/8/8/6PP/rR5K b - - 2 2''),
       (mv ''Rxa1'' ''e1a1'', ''8/5k2/8/8/8/8/6PP/R6K b - - 0 2''),
       (mv ''Kg1'' ''h1g1'', ''8/5k2/8/8/8/8/6PP/r3R1K1 b - - 2 2'')]\<rparr>"

definition after_Kd7_fen :: string where
  "after_Kd7_fen = ''8/3k4/8/8/8/8/6PP/r3R2K w - - 1 2''"

definition after_Kd7 :: Node where
  "after_Kd7 =
    \<lparr>in_check = False, fifty_moves = False, threefold = False, insufficient = False,
     to_move = White,
     squares = place [((1, 3), pc Black King), ((6, 6), pc White Pawn), ((6, 7), pc White Pawn), ((7, 0), pc Black Rook), ((7, 4), pc White Rook), ((7, 7), pc White King)],
     legal =
      [(mv ''g3'' ''g2g3'', ''8/3k4/8/8/8/6P1/7P/r3R2K b - - 0 2''),
       (mv ''g4'' ''g2g4'', ''8/3k4/8/8/6P1/8/7P/r3R2K b - - 0 2''),
       (mv ''h3'' ''h2h3'', ''8/3k4/8/8/8/7P/6P1/r3R2K b - - 0 2''),
       (mv ''h4'' ''h2h4'', ''8/3k4/8/8/7P/8/6P1/r3R2K b - - 0 2''),
       (mv ''Rf1'' ''e1f1'', ''8/3k4/8/8/8/8/6PP/r4R1K b - - 2 2''),
       (mv ''Rg1'' ''e1g1'', ''8/3k4/8/8/8/8/6PP/r5RK b - - 2 2''),
       (mv ''Rd1+'' ''e1d1'', ''8/3k4/8/8/8/8/6PP/r2R3K b - - 2 2''),
       (mv ''Rc1'' ''e1c1'', ''8/3k4/8/8/8/8/6PP/r1R4K b - - 2 2''),
       (mv ''Rb1'' ''e1b1'', ''8/3k4/8/8/8/8/6PP/rR5K b - - 2 2''),
       (mv ''Rxa1'' ''e1a1'', ''8/3k4/8/8/8/8/6PP/R6K b - - 0 2''),
       (mv ''Kg1'' ''h1g1'', ''8/3k4/8/8/8/8/6PP/r3R1K1 b - - 2 2'')]\<rparr>"

definition after_Kd8_fen :: string where
  "after_Kd8_fen = ''3k4/8/8/8/8/8/6PP/r3R2K w - - 1 2''"

definition after_Kd8 :: Node where
  "after_Kd8 =
    \<lparr>in_check = False, fifty_moves = False, threefold = False, insufficient = False,
     to_move = White,
     squares = place [((0, 3), pc Black King), ((6, 6), pc White Pawn), ((6, 7), pc White Pawn), ((7, 0), pc Black Rook), ((7, 4), pc White Rook), ((7, 7), pc White King)],
     legal =
      [(mv ''g3'' ''g2g3'', ''3k4/8/8/8/8/6P1/7P/r3R2K b - - 0 2''),
       (mv ''g4'' ''g2g4'', ''3k4/8/8/8/6P1/8/7P/r3R2K b - - 0 2''),
       (mv ''h3'' ''h2h3'', ''3k4/8/8/8/8/7P/6P1/r3R2K b - - 0 2''),
       (mv ''h4'' ''h2h4'', ''3k4/8/8/8/7P/8/6P1/r3R2K b - - 0 2''),
       (mv ''Rf1'' ''e1f1'', ''3k4/8/8/8/8/8/6PP/r4R1K b - - 2 2''),
       (mv ''Rg1'' ''e1g1'', ''3k4/8/8/8/8/8/6PP/r5RK b - - 2 2''),
       (mv ''Rd1+'' ''e1d1'', ''3k4/8/8/8/8/8/6PP/r2R3K b - - 2 2''),
       (mv ''Rc1'' ''e1c1'', ''3k4/8/8/8/8/8/6PP/r1R4K b - - 2 2''),
       (mv ''Rb1'' ''e1b1'', ''3k4/8/8/8/8/8/6PP/rR5K b - - 2 2''),
       (mv ''Rxa1'' ''e1a1'', ''3k4/8/8/8/8/8/6PP/R6K b - - 0 2''),
       (mv ''Kg1'' ''h1g1'', ''3k4/8/8/8/8/8/6PP/r3R1K1 b - - 2 2'')]\<rparr>"

definition after_Rxe1_fen :: string where
  "after_Rxe1_fen = ''4k3/8/8/8/8/8/6PP/4r2K w - - 0 2''"

definition after_Rxe1 :: Node where
  "after_Rxe1 =
    \<lparr>in_check = True, fifty_moves = False, threefold = False, insufficient = False,
     to_move = White,
     squares = place [((0, 4), pc Black King), ((6, 6), pc White Pawn), ((6, 7), pc White Pawn), ((7, 4), pc Black Rook), ((7, 7), pc White King)],
     legal =
      []\<rparr>"

definition chess_table :: "string \<Rightarrow> Node" where
  "chess_table s =
    (case map_of
       [(pawn_ending_fen, pawn_ending),
        (pawn_ending_flipped_fen, pawn_ending_flipped),
        (mate_at_fifty_fen, mate_at_fifty),
        (bare_kings_fen, bare_kings),
        (back_rank_fen, back_rank),
        (after_Kf8_fen, after_Kf8),
        (after_Kf7_fen, after_Kf7),
        (after_Kd7_fen, after_Kd7),
        (after_Kd8_fen, after_Kd8),
        (after_Rxe1_fen, after_Rxe1)] s of
       None \<Rightarrow> quiet White (place []) []
     | Some n \<Rightarrow> n)"

definition chess :: "TableGame Chess" where
  "chess = table_chess chess_table"

definition start :: "string \<Rightarrow> TableGame" where
  "start s = \<lparr>position = s, history = []\<rparr>"

section \<open>Relating a windowed search to the exhaustive one\<close>

text \<open>
  \<open>window_sound a b v r\<close>: the result \<open>r\<close> of a search with the window \<open>(a, b)\<close> against
  the exhaustive value \<open>v\<close>. \<open>top_val\<close> and \<open>bottom_val\<close> are the largest and the smallest
  value over a list of moves.
\<close>

definition window_sound :: "number \<Rightarrow> number \<Rightarrow> number \<Rightarrow> number \<Rightarrow> bool" where
  "window_sound a b v r =
    ((r \<le> a \<longrightarrow> v \<le> r) \<and> (a < r \<and> r < b \<longrightarrow> r = v) \<and> (b \<le> r \<longrightarrow> r \<le> v))"

definition top_val :: "(Move \<Rightarrow> number) \<Rightarrow> Move list \<Rightarrow> number" where
  "top_val val ms = foldr (\<lambda>m. max (val m)) ms NegInfinity"

definition bottom_val :: "(Move \<Rightarrow> number) \<Rightarrow> Move list \<Rightarrow> number" where
  "bottom_val val ms = foldr (\<lambda>m. min (val m)) ms Infinity"

section \<open>The order on scores\<close>

lemma number_less [simp]:
  "Num a < Num b \<longleftrightarrow> a < b"
  "NegInfinity < Num a"
  "Num a < Infinity"
  "NegInfinity < Infinity"
  "\<not> x < NegInfinity"
  "\<not> Infinity < x"
  by (cases x; auto simp: less_number_def)+

lemma number_le [simp]:
  "x \<le> Infinity"
  "Infinity \<le> x \<longleftrightarrow> x = Infinity"
  "x \<le> NegInfinity \<longleftrightarrow> x = NegInfinity"
  by (cases x; simp)+

lemma number_max_min [simp]:
  "max NegInfinity x = x" "max x NegInfinity = x"
  "min Infinity x = x" "min x Infinity = x"
  by (simp_all add: max_def min_def)

section \<open>The tabulated oracle\<close>

text \<open>Every tabulated oracle keeps the two contracts, whatever the table.\<close>

lemma table_undo_reverts: "undo_reverts (table_chess tab)"
  unfolding undo_reverts_def table_chess_def
  by (auto simp: map_of_eq_None_iff split: option.splits)

lemma table_live_has_moves: "live_has_moves (table_chess tab)"
  by (simp add: live_has_moves_def table_chess_def)

lemmas fen_defs =
  pawn_ending_fen_def pawn_ending_flipped_fen_def mate_at_fifty_fen_def bare_kings_fen_def
  back_rank_fen_def after_Kf8_fen_def after_Kf7_fen_def after_Kd7_fen_def after_Kd8_fen_def
  after_Rxe1_fen_def

lemma chess_table_lookup:
  "chess_table pawn_ending_fen = pawn_ending"
  "chess_table pawn_ending_flipped_fen = pawn_ending_flipped"
  "chess_table mate_at_fifty_fen = mate_at_fifty"
  "chess_table bare_kings_fen = bare_kings"
  "chess_table back_rank_fen = back_rank"
  "chess_table after_Kf8_fen = after_Kf8"
  "chess_table after_Kf7_fen = after_Kf7"
  "chess_table after_Kd7_fen = after_Kd7"
  "chess_table after_Kd8_fen = after_Kd8"
  "chess_table after_Rxe1_fen = after_Rxe1"
  by (simp_all add: chess_table_def fen_defs)

lemma chess_methods:
  "isCheckmate chess g
     = (in_check (chess_table (position g)) \<and> legal (chess_table (position g)) = [])"
  "isDraw chess g
     = (fifty_moves (chess_table (position g))
        \<or> (\<not> in_check (chess_table (position g)) \<and> legal (chess_table (position g)) = [])
        \<or> insufficient (chess_table (position g)) \<or> threefold (chess_table (position g)))"
  "isStalemate chess g
     = (\<not> in_check (chess_table (position g)) \<and> legal (chess_table (position g)) = [])"
  "isThreefoldRepetition chess g = threefold (chess_table (position g))"
  "isInsufficientMaterial chess g = insufficient (chess_table (position g))"
  "isGameOver chess g
     = (legal (chess_table (position g)) = [] \<or> fifty_moves (chess_table (position g))
        \<or> insufficient (chess_table (position g)) \<or> threefold (chess_table (position g)))"
  "turn chess g = to_move (chess_table (position g))"
  "board chess g = squares (chess_table (position g))"
  "moves chess g = map fst (legal (chess_table (position g)))"
  "move chess g m
     = (case map_of (legal (chess_table (position g))) m of
          None \<Rightarrow> g
        | Some s \<Rightarrow> \<lparr>position = s, history = position g # history g\<rparr>)"
  "undo chess g = (case history g of [] \<Rightarrow> g | s # hs \<Rightarrow> \<lparr>position = s, history = hs\<rparr>)"
  "fen chess g = position g"
  "load chess s = \<lparr>position = s, history = []\<rparr>"
  by (simp_all add: chess_def table_chess_def)

lemma undo_pushed:
  "undo chess \<lparr>position = s, history = t # h\<rparr> = \<lparr>position = t, history = h\<rparr>"
  by (simp add: chess_methods)

lemma san_mv: "san (mv s l) = s"
  by (simp add: mv_def)

lemma upper_symbol:
  "toUpperCase ''p'' = ''P''" "toUpperCase ''n'' = ''N''" "toUpperCase ''b'' = ''B''"
  "toUpperCase ''r'' = ''R''" "toUpperCase ''q'' = ''Q''" "toUpperCase ''k'' = ''K''"
  by code_simp+

text \<open>Every piece symbol of the library is a key of \<open>PIECE_VALUES\<close>.\<close>

lemma PIECE_VALUES_total: "map_of PIECE_VALUES (symbol t) \<noteq> None"
  by (cases t) (simp_all add: PIECE_VALUES_def)

subsection \<open>The evaluation of the tabulated positions\<close>

lemma scan_pawn_ending: "scan_board (squares pawn_ending) = -30"
  by code_simp

lemma scan_pawn_ending_flipped: "scan_board (squares pawn_ending_flipped) = 100"
  by code_simp

lemma scan_pawn_ending_rotated: "scan_board (rotate_board (squares pawn_ending)) = 100"
  by code_simp

lemma scan_after_king_moves:
  "scan_board (squares after_Kf8) = -200"
  "scan_board (squares after_Kf7) = -200"
  "scan_board (squares after_Kd7) = -190"
  "scan_board (squares after_Kd8) = -190"
  by code_simp+

lemma evaluate_pawn_ending:
  "evaluateBoard chess \<lparr>position = pawn_ending_fen, history = h\<rparr> = 0"
  by (simp add: evaluateBoard_def chess_methods chess_table_lookup scan_pawn_ending)
     (simp add: pawn_ending_def)

lemma evaluate_pawn_ending_flipped:
  "evaluateBoard chess \<lparr>position = pawn_ending_flipped_fen, history = h\<rparr> = 70"
  by (simp add: evaluateBoard_def chess_methods chess_table_lookup scan_pawn_ending_flipped)
     (simp add: pawn_ending_flipped_def)

lemma evaluate_successors:
  "evaluateBoard chess \<lparr>position = after_Kf8_fen, history = h\<rparr> = -145"
  "evaluateBoard chess \<lparr>position = after_Kf7_fen, history = h\<rparr> = -145"
  "evaluateBoard chess \<lparr>position = after_Kd7_fen, history = h\<rparr> = -135"
  "evaluateBoard chess \<lparr>position = after_Kd8_fen, history = h\<rparr> = -135"
  "evaluateBoard chess \<lparr>position = after_Rxe1_fen, history = h\<rparr> = -100000"
      apply (simp add: evaluateBoard_def chess_methods chess_table_lookup scan_after_king_moves)
      apply (simp add: after_Kf8_def)
     apply (simp add: evaluateBoard_def chess_methods chess_table_lookup scan_after_king_moves)
     apply (simp add: after_Kf7_def)
    apply (simp add: evaluateBoard_def chess_methods chess_table_lookup scan_after_king_moves)
    apply (simp add: after_Kd7_def)
   apply (simp add: evaluateBoard_def chess_methods chess_table_lookup scan_after_king_moves)
   apply (simp add: after_Kd8_def)
  apply (simp add: evaluateBoard_def chess_methods chess_table_lookup)
  apply (simp add: after_Rxe1_def)
  done

lemma mate_at_fifty_flags:
  "isCheckmate chess \<lparr>position = mate_at_fifty_fen, history = h\<rparr>"
  "isDraw chess \<lparr>position = mate_at_fifty_fen, history = h\<rparr>"
  "turn chess \<lparr>position = mate_at_fifty_fen, history = h\<rparr> = Black"
  by (simp_all add: chess_methods chess_table_lookup mate_at_fifty_def)

lemma bare_kings_flags:
  "\<not> isCheckmate chess \<lparr>position = bare_kings_fen, history = h\<rparr>"
  "isInsufficientMaterial chess \<lparr>position = bare_kings_fen, history = h\<rparr>"
  by (simp_all add: chess_methods chess_table_lookup bare_kings_def)

subsection \<open>One ply from the back-rank position\<close>

lemma back_rank_turn: "turn chess \<lparr>position = back_rank_fen, history = h\<rparr> = Black"
  by (simp add: chess_methods chess_table_lookup back_rank_def)

lemma back_rank_live: "\<not> isGameOver chess \<lparr>position = back_rank_fen, history = h\<rparr>"
  by (simp add: chess_methods chess_table_lookup back_rank_def)

lemma back_rank_moves:
  "moves chess \<lparr>position = back_rank_fen, history = h\<rparr> =
    [mv ''Kf8'' ''e8f8'', mv ''Kf7'' ''e8f7'', mv ''Kd7'' ''e8d7'', mv ''Kd8'' ''e8d8'',
     mv ''Rxe1#'' ''a1e1'']"
  by (simp add: chess_methods chess_table_lookup back_rank_def)

lemma back_rank_move:
  "move chess \<lparr>position = back_rank_fen, history = h\<rparr> (mv ''Kf8'' ''e8f8'')
     = \<lparr>position = after_Kf8_fen, history = back_rank_fen # h\<rparr>"
  "move chess \<lparr>position = back_rank_fen, history = h\<rparr> (mv ''Kf7'' ''e8f7'')
     = \<lparr>position = after_Kf7_fen, history = back_rank_fen # h\<rparr>"
  "move chess \<lparr>position = back_rank_fen, history = h\<rparr> (mv ''Kd7'' ''e8d7'')
     = \<lparr>position = after_Kd7_fen, history = back_rank_fen # h\<rparr>"
  "move chess \<lparr>position = back_rank_fen, history = h\<rparr> (mv ''Kd8'' ''e8d8'')
     = \<lparr>position = after_Kd8_fen, history = back_rank_fen # h\<rparr>"
  "move chess \<lparr>position = back_rank_fen, history = h\<rparr> (mv ''Rxe1#'' ''a1e1'')
     = \<lparr>position = after_Rxe1_fen, history = back_rank_fen # h\<rparr>"
  by (simp_all add: chess_methods chess_table_lookup back_rank_def mv_def
      after_Kf8_fen_def after_Kf7_fen_def after_Kd7_fen_def after_Kd8_fen_def after_Rxe1_fen_def)

lemma back_rank_maximizing:
  "minimax chess \<lparr>position = back_rank_fen, history = h\<rparr> (Suc 0) NegInfinity Infinity True
     = (\<lparr>position = back_rank_fen, history = h\<rparr>,
        \<lparr>score = Num (-135), moveSan = Some ''Kd7''\<rparr>)"
  by (simp add: back_rank_live back_rank_moves back_rank_move undo_pushed evaluate_successors
      san_mv Let_def)

lemma back_rank_minimizing:
  "minimax chess \<lparr>position = back_rank_fen, history = h\<rparr> (Suc 0) NegInfinity Infinity False
     = (\<lparr>position = back_rank_fen, history = h\<rparr>,
        \<lparr>score = Num (-100000), moveSan = Some ''Rxe1#''\<rparr>)"
  by (simp add: back_rank_live back_rank_moves back_rank_move undo_pushed evaluate_successors
      san_mv Let_def)

section \<open>The evaluator's claims\<close>

text \<open>
  Claim C2. The material term should add the value of the piece type (pawn 100, knight 320,
  bishop 330, rook 500, queen 900, king 20000) positively for a White piece and negatively
  for a Black piece. The code looks \<open>PIECE_VALUES\<close> up under the library's lower-case
  symbol, whose entries are already negative, and then multiplies by the colour's sign: a
  White piece contributes the negated value and a Black piece the positive one.
\<close>

theorem material_sign_inverted:
  "material_term (pc White Pawn) = -100 \<and> material_term (pc White Knight) = -320
   \<and> material_term (pc White Bishop) = -330 \<and> material_term (pc White Rook) = -500
   \<and> material_term (pc White Queen) = -900 \<and> material_term (pc White King) = -20000
   \<and> material_term (pc Black Pawn) = 100 \<and> material_term (pc Black Knight) = 320
   \<and> material_term (pc Black Bishop) = 330 \<and> material_term (pc Black Rook) = 500
   \<and> material_term (pc Black Queen) = 900 \<and> material_term (pc Black King) = 20000"
  by (simp add: material_term_def pc_def PIECE_VALUES_def)

text \<open>
  Claim C3. A White piece should read its bonus at \<^verbatim>\<open>[7 - row][col]\<close> and add it, a Black
  piece at \<^verbatim>\<open>[row][col]\<close> and subtract it. The code passes the lower-case symbol to
  \<^verbatim>\<open>getPositionBonus\<close>, which is never its own upper case: the White branch is dead and a
  White piece gets the bonus of a Black piece on the same square. For the White pawn on e2
  (row 6, column 4) that is 20, not the 50 of the table's row 1.
\<close>

theorem white_bonus_read_as_black:
  "bonus_term (pc White t) row col = bonus_term (pc Black t) row col
   \<and> bonus_term (pc White Pawn) 6 4 = 20 \<and> bonus_term (pc Black Pawn) 6 4 = 20"
  by (cases t)
     (simp_all add: bonus_term_def pc_def getPositionBonus_def upper_symbol POSITION_BONUSES_def)

text \<open>
  Claim C6, as amended. Checkmate is tested first: a checkmate position scores -100000 with
  White to move and 100000 with Black to move. A position that is not checkmate and that
  the library reports as stalemate, draw, threefold repetition or insufficient material
  scores 0.
\<close>

theorem evaluateBoard_terminal:
  "(isCheckmate C game \<longrightarrow>
      evaluateBoard C game = (if turn C game = White then -100000 else 100000))
   \<and> (\<not> isCheckmate C game
      \<and> (isStalemate C game \<or> isDraw C game \<or> isThreefoldRepetition C game
         \<or> isInsufficientMaterial C game)
      \<longrightarrow> evaluateBoard C game = 0)"
  by (auto simp: evaluateBoard_def)

theorem evaluateBoard_terminal_witness:
  "isCheckmate chess (start mate_at_fifty_fen)
   \<and> evaluateBoard chess (start mate_at_fifty_fen) = 100000
   \<and> isInsufficientMaterial chess (start bare_kings_fen)
   \<and> evaluateBoard chess (start bare_kings_fen) = 0"
  using evaluateBoard_terminal [of chess "start mate_at_fifty_fen"]
    evaluateBoard_terminal [of chess "start bare_kings_fen"]
  by (simp add: start_def mate_at_fifty_flags bare_kings_flags)

text \<open>
  Claim C6 as stated fails where the library reports a position as checkmate and as a draw
  at once: a mate delivered when the half-move clock has reached 100. The position is a
  draw for \<^verbatim>\<open>isDraw\<close>, and its score is 100000, not 0.
\<close>

theorem checkmate_before_draw:
  "isDraw chess (start mate_at_fifty_fen)
   \<and> evaluateBoard chess (start mate_at_fifty_fen) = 100000"
  by (simp add: evaluateBoard_def start_def mate_at_fifty_flags)

text \<open>
  Claim C7. The score of the colour-flipped, mirrored position should be the negation of
  the score. The material and mobility terms change sign, but the position bonus treats
  every piece as Black (claim C3), so it does not: king and pawn against king with White
  to move scores 0, and its mirror image with Black to move scores 70.
\<close>

theorem mirror_not_negated:
  "board chess (start pawn_ending_flipped_fen) = flip_board (board chess (start pawn_ending_fen))
   \<and> turn chess (start pawn_ending_flipped_fen) = opposite (turn chess (start pawn_ending_fen))
   \<and> length (moves chess (start pawn_ending_flipped_fen))
       = length (moves chess (start pawn_ending_fen))
   \<and> evaluateBoard chess (start pawn_ending_fen) = 0
   \<and> evaluateBoard chess (start pawn_ending_flipped_fen) = 70"
proof -
  have "squares pawn_ending_flipped = flip_board (squares pawn_ending)"
    by code_simp
  moreover have "to_move pawn_ending_flipped = opposite (to_move pawn_ending)"
    and "length (legal pawn_ending_flipped) = length (legal pawn_ending)"
    by (simp_all add: pawn_ending_def pawn_ending_flipped_def opposite_def)
  ultimately show ?thesis
    by (simp add: start_def chess_methods chess_table_lookup evaluate_pawn_ending
        evaluate_pawn_ending_flipped)
qed

section \<open>The searcher's claims\<close>

text \<open>
  Claim C9. With depth 0, \<open>minimax\<close> returns the score \<open>evaluateBoard\<close> gives the position
  and no move, and \<open>findBestMove\<close> returns \<^verbatim>\<open>null\<close>.
\<close>

theorem minimax_depth_zero:
  "snd (minimax C game 0 alpha beta isMaximizingPlayer)
     = \<lparr>score = Num (evaluateBoard C game), moveSan = None\<rparr>
   \<and> snd (findBestMove C store g 0 computerColor) = None"
  by (simp add: findBestMove_def Let_def)

theorem minimax_depth_zero_witness:
  "snd (minimax chess (start back_rank_fen) 0 NegInfinity Infinity True)
     = \<lparr>score = Num (evaluateBoard chess (start back_rank_fen)), moveSan = None\<rparr>
   \<and> snd (findBestMove chess [start back_rank_fen] 0 0 Black) = None"
  by (rule minimax_depth_zero)

subsection \<open>The position after a search\<close>

lemma max_loop_fst:
  assumes "undo_reverts C" and "\<And>g a b. fst (child g a b) = g"
    and "set ms \<subseteq> set (moves C game)"
  shows "fst (max_loop C child ms game alpha beta maxScore bestMove) = game"
  using assms(3)
proof (induction ms arbitrary: alpha maxScore bestMove)
  case Nil
  show ?case by simp
next
  case (Cons m rest)
  have restored: "undo C (fst (child (move C game m) alpha beta)) = game"
    using assms(1,2) Cons.prems by (simp add: undo_reverts_def)
  show ?case
    using Cons.IH Cons.prems restored
    by (simp add: Let_def split_beta)
qed

lemma min_loop_fst:
  assumes "undo_reverts C" and "\<And>g a b. fst (child g a b) = g"
    and "set ms \<subseteq> set (moves C game)"
  shows "fst (min_loop C child ms game alpha beta minScore bestMove) = game"
  using assms(3)
proof (induction ms arbitrary: beta minScore bestMove)
  case Nil
  show ?case by simp
next
  case (Cons m rest)
  have restored: "undo C (fst (child (move C game m) alpha beta)) = game"
    using assms(1,2) Cons.prems by (simp add: undo_reverts_def)
  show ?case
    using Cons.IH Cons.prems restored
    by (simp add: Let_def split_beta)
qed

lemma minimax_fst:
  assumes "undo_reverts C"
  shows "fst (minimax C game depth alpha beta isMax) = game"
proof (induction depth arbitrary: game alpha beta isMax)
  case 0
  show ?case by simp
next
  case (Suc d)
  show ?case
    using Suc.IH assms by (simp add: Let_def max_loop_fst min_loop_fst)
qed

text \<open>
  Claim C1. When \<^verbatim>\<open>undo\<close> takes back the move just made, the game object is, after
  \<open>minimax\<close> returns, in the state it had before the call: for every depth, window and
  side, pruned or not. The state of the game object is the whole position (board, side to
  move, rights, counters, history).
\<close>

theorem minimax_restores_position:
  "undo_reverts C \<Longrightarrow> fst (minimax C game depth alpha beta isMaximizingPlayer) = game"
  by (rule minimax_fst)

theorem minimax_restores_position_witness:
  "fst (minimax chess (start back_rank_fen) 2 NegInfinity Infinity False) = start back_rank_fen"
  by (rule minimax_restores_position) (simp add: chess_def table_undo_reverts)

subsection \<open>A move is returned\<close>

lemma max_loop_finite:
  assumes child_fin: "\<And>g a b. \<exists>n. score (snd (child g a b)) = Num n"
    and "set ms \<subseteq> S"
    and "(maxScore = NegInfinity \<and> ms \<noteq> []) \<or> (\<exists>n m. maxScore = Num n \<and> bestMove = Some m \<and> m \<in> S)"
  shows "\<exists>n. \<exists>m\<in>S. snd (max_loop C child ms game alpha beta maxScore bestMove)
            = \<lparr>score = Num n, moveSan = Some (san m)\<rparr>"
  using assms(2,3)
proof (induction ms arbitrary: game alpha maxScore bestMove)
  case Nil
  then show ?case by auto
next
  case (Cons m rest)
  obtain n1 where n1: "score (snd (child (move C game m) alpha beta)) = Num n1"
    using child_fin by blast
  define M' where "M' = (if Num n1 > maxScore then Num n1 else maxScore)"
  define B' where "B' = (if Num n1 > maxScore then Some m else bestMove)"
  have acc: "\<exists>n m'. M' = Num n \<and> B' = Some m' \<and> m' \<in> S"
    using Cons.prems by (auto simp: M'_def B'_def)
  have step: "snd (max_loop C child (m # rest) game alpha beta maxScore bestMove)
      = (if beta \<le> max alpha M' then \<lparr>score = M', moveSan = map_option san B'\<rparr>
         else snd (max_loop C child rest (undo C (fst (child (move C game m) alpha beta)))
                    (max alpha M') beta M' B'))"
    using n1 by (simp add: Let_def split_beta M'_def B'_def)
  show ?case
  proof (cases "beta \<le> max alpha M'")
    case True
    then show ?thesis using acc step by auto
  next
    case False
    have "\<exists>n. \<exists>m'\<in>S. snd (max_loop C child rest (undo C (fst (child (move C game m) alpha beta)))
                    (max alpha M') beta M' B') = \<lparr>score = Num n, moveSan = Some (san m')\<rparr>"
      by (rule Cons.IH) (use Cons.prems(1) acc in auto)
    then show ?thesis using False step by simp
  qed
qed

lemma min_loop_finite:
  assumes child_fin: "\<And>g a b. \<exists>n. score (snd (child g a b)) = Num n"
    and "set ms \<subseteq> S"
    and "(minScore = Infinity \<and> ms \<noteq> []) \<or> (\<exists>n m. minScore = Num n \<and> bestMove = Some m \<and> m \<in> S)"
  shows "\<exists>n. \<exists>m\<in>S. snd (min_loop C child ms game alpha beta minScore bestMove)
            = \<lparr>score = Num n, moveSan = Some (san m)\<rparr>"
  using assms(2,3)
proof (induction ms arbitrary: game beta minScore bestMove)
  case Nil
  then show ?case by auto
next
  case (Cons m rest)
  obtain n1 where n1: "score (snd (child (move C game m) alpha beta)) = Num n1"
    using child_fin by blast
  define M' where "M' = (if Num n1 < minScore then Num n1 else minScore)"
  define B' where "B' = (if Num n1 < minScore then Some m else bestMove)"
  have acc: "\<exists>n m'. M' = Num n \<and> B' = Some m' \<and> m' \<in> S"
    using Cons.prems by (auto simp: M'_def B'_def)
  have step: "snd (min_loop C child (m # rest) game alpha beta minScore bestMove)
      = (if min beta M' \<le> alpha then \<lparr>score = M', moveSan = map_option san B'\<rparr>
         else snd (min_loop C child rest (undo C (fst (child (move C game m) alpha beta)))
                    alpha (min beta M') M' B'))"
    using n1 by (simp add: Let_def split_beta M'_def B'_def)
  show ?case
  proof (cases "min beta M' \<le> alpha")
    case True
    then show ?thesis using acc step by auto
  next
    case False
    have "\<exists>n. \<exists>m'\<in>S. snd (min_loop C child rest (undo C (fst (child (move C game m) alpha beta)))
                    alpha (min beta M') M' B') = \<lparr>score = Num n, moveSan = Some (san m')\<rparr>"
      by (rule Cons.IH) (use Cons.prems(1) acc in auto)
    then show ?thesis using False step by simp
  qed
qed

lemma minimax_finite:
  assumes "live_has_moves C"
  shows "\<exists>n. score (snd (minimax C game depth alpha beta isMax)) = Num n"
proof (induction depth arbitrary: game alpha beta isMax)
  case 0
  show ?case by simp
next
  case (Suc d)
  show ?case
  proof (cases "isGameOver C game")
    case True
    then show ?thesis by simp
  next
    case False
    then have ne: "moves C game \<noteq> []"
      using assms by (simp add: live_has_moves_def)
    show ?thesis
    proof (cases isMax)
      case True
      have "\<exists>n. \<exists>m\<in>set (moves C game).
              snd (max_loop C (\<lambda>g a b. minimax C g d a b False) (moves C game) game alpha beta
                     NegInfinity None) = \<lparr>score = Num n, moveSan = Some (san m)\<rparr>"
        by (rule max_loop_finite) (use Suc.IH ne in auto)
      then show ?thesis using True \<open>\<not> isGameOver C game\<close> by auto
    next
      case False
      have "\<exists>n. \<exists>m\<in>set (moves C game).
              snd (min_loop C (\<lambda>g a b. minimax C g d a b True) (moves C game) game alpha beta
                     Infinity None) = \<lparr>score = Num n, moveSan = Some (san m)\<rparr>"
        by (rule min_loop_finite) (use Suc.IH ne in auto)
      then show ?thesis using False \<open>\<not> isGameOver C game\<close> by auto
    qed
  qed
qed

text \<open>
  Claim C8. When every game that is not over has a legal move, \<open>minimax\<close> at depth 1 or
  more on a position that is not over returns a move, and it is the SAN of one of the moves
  \<^verbatim>\<open>game.moves()\<close> lists for the position; from the starting position these are the 20
  first moves.
\<close>

theorem minimax_returns_legal_move:
  assumes "live_has_moves C" and "\<not> isGameOver C game"
  shows "moveSan (snd (minimax C game (Suc d) alpha beta isMaximizingPlayer))
           \<in> (\<lambda>m. Some (san m)) ` set (moves C game)"
proof -
  have ne: "moves C game \<noteq> []"
    using assms by (simp add: live_has_moves_def)
  show ?thesis
  proof (cases isMaximizingPlayer)
    case True
    have "\<exists>n. \<exists>m\<in>set (moves C game).
            snd (max_loop C (\<lambda>g a b. minimax C g d a b False) (moves C game) game alpha beta
                   NegInfinity None) = \<lparr>score = Num n, moveSan = Some (san m)\<rparr>"
      by (rule max_loop_finite) (use minimax_finite [OF assms(1)] ne in auto)
    then show ?thesis using True assms(2) by auto
  next
    case False
    have "\<exists>n. \<exists>m\<in>set (moves C game).
            snd (min_loop C (\<lambda>g a b. minimax C g d a b True) (moves C game) game alpha beta
                   Infinity None) = \<lparr>score = Num n, moveSan = Some (san m)\<rparr>"
      by (rule min_loop_finite) (use minimax_finite [OF assms(1)] ne in auto)
    then show ?thesis using False assms(2) by auto
  qed
qed

theorem minimax_returns_legal_move_witness:
  "\<not> isGameOver chess (start back_rank_fen)
   \<and> moveSan (snd (minimax chess (start back_rank_fen) (Suc 0) NegInfinity Infinity True))
       \<in> (\<lambda>m. Some (san m)) ` set (moves chess (start back_rank_fen))"
proof -
  have live: "live_has_moves chess"
    by (simp add: chess_def table_live_has_moves)
  have not_over: "\<not> isGameOver chess (start back_rank_fen)"
    by (simp add: start_def back_rank_live)
  show ?thesis
    using minimax_returns_legal_move [OF live not_over, of 0 NegInfinity Infinity True] not_over
    by blast
qed

subsection \<open>Pruning against exhaustive minimax\<close>

text \<open>
  A search with the window \<open>(a, b)\<close> returns \<open>r\<close> where exhaustive minimax returns \<open>v\<close>:
  inside the window \<open>r\<close> is exact, at or below \<open>a\<close> it is an upper bound of \<open>v\<close>, at or
  above \<open>b\<close> a lower bound (\<open>window_sound a b v r\<close>).
\<close>

lemma exhaustive_max_score:
  "score (exhaustive_max val ms best bestMove) = max best (top_val val ms)"
proof (induction ms arbitrary: best bestMove)
  case Nil
  show ?case by (simp add: top_val_def)
next
  case (Cons m rest)
  have "top_val val (m # rest) = max (val m) (top_val val rest)"
    by (simp add: top_val_def)
  then show ?case
    using Cons.IH by (auto simp: max_def)
qed

lemma exhaustive_min_score:
  "score (exhaustive_min val ms best bestMove) = min best (bottom_val val ms)"
proof (induction ms arbitrary: best bestMove)
  case Nil
  show ?case by (simp add: bottom_val_def)
next
  case (Cons m rest)
  have "bottom_val val (m # rest) = min (val m) (bottom_val val rest)"
    by (simp add: bottom_val_def)
  then show ?case
    using Cons.IH by (auto simp: min_def)
qed

lemma exhaustive_max_at_top:
  "exhaustive_max val ms Infinity bestMove = \<lparr>score = Infinity, moveSan = map_option san bestMove\<rparr>"
  by (induction ms) simp_all

lemma exhaustive_min_at_bottom:
  "exhaustive_min val ms NegInfinity bestMove = \<lparr>score = NegInfinity, moveSan = map_option san bestMove\<rparr>"
  by (induction ms) simp_all

lemma max_loop_step:
  assumes "undo_reverts C" and "\<And>g a b. fst (child g a b) = g" and "m \<in> set (moves C game)"
  shows "max_loop C child (m # rest) game alpha beta maxScore bestMove =
    (let r = score (snd (child (move C game m) alpha beta));
         M' = max maxScore r;
         B' = (if r > maxScore then Some m else bestMove)
     in if beta \<le> max alpha M' then (game, \<lparr>score = M', moveSan = map_option san B'\<rparr>)
        else max_loop C child rest game (max alpha M') beta M' B')"
proof -
  have "undo C (fst (child (move C game m) alpha beta)) = game"
    using assms by (simp add: undo_reverts_def)
  then show ?thesis
    by (auto simp: Let_def split_beta max_def)
qed

lemma min_loop_step:
  assumes "undo_reverts C" and "\<And>g a b. fst (child g a b) = g" and "m \<in> set (moves C game)"
  shows "min_loop C child (m # rest) game alpha beta minScore bestMove =
    (let r = score (snd (child (move C game m) alpha beta));
         M' = min minScore r;
         B' = (if r < minScore then Some m else bestMove)
     in if min beta M' \<le> alpha then (game, \<lparr>score = M', moveSan = map_option san B'\<rparr>)
        else min_loop C child rest game alpha (min beta M') M' B')"
proof -
  have "undo C (fst (child (move C game m) alpha beta)) = game"
    using assms by (simp add: undo_reverts_def)
  then show ?thesis
    by (auto simp: Let_def split_beta min_def)
qed

lemma max_loop_ge: "maxScore \<le> score (snd (max_loop C child ms game alpha beta maxScore bestMove))"
proof (induction ms arbitrary: game alpha maxScore bestMove)
  case Nil
  show ?case by simp
next
  case (Cons m rest)
  show ?case
    by (auto simp: Let_def split_beta intro: order_trans [OF _ Cons.IH] less_imp_le)
qed

lemma min_loop_le: "score (snd (min_loop C child ms game alpha beta minScore bestMove)) \<le> minScore"
proof (induction ms arbitrary: game beta minScore bestMove)
  case Nil
  show ?case by simp
next
  case (Cons m rest)
  show ?case
    by (auto simp: Let_def split_beta intro: order_trans [OF Cons.IH] less_imp_le)
qed


lemma window_max_break:
  assumes c: "window_sound a b v1 r1" and "a < b" and "M \<le> a" and "b \<le> max a (max M r1)"
  shows "window_sound a b (max M (max v1 W)) (max M r1)"
proof -
  have "b \<le> r1"
    using assms(2,3,4) by (auto simp: max_def split: if_splits)
  then have "r1 \<le> v1" and "max M r1 = r1" and "\<not> r1 \<le> a" and "\<not> r1 < b"
    using c assms(2,3) by (auto simp: window_sound_def max_def)
  then show ?thesis
    by (simp add: window_sound_def le_max_iff_disj)
qed

lemma window_max_continue:
  assumes c: "window_sound a b v1 r1" and "a < b" and "M \<le> a"
    and nb: "\<not> b \<le> max a (max M r1)"
    and ih: "window_sound (max a (max M r1)) b (max (max M r1) W) r" and ge: "max M r1 \<le> r"
  shows "window_sound a b (max M (max v1 W)) r"
proof -
  have r1b: "r1 < b"
    using nb by (simp add: not_le)
  have v1: "v1 \<le> r1"
    using c r1b unfolding window_sound_def by (cases "r1 \<le> a") auto
  have a': "max a (max M r1) = max a r1"
    using assms(3) by (simp add: max.absorb1 flip: max.assoc)
  have Mr: "M \<le> r" and r1r: "r1 \<le> r"
    using ge by simp_all
  have low: "r \<le> max a r1 \<Longrightarrow> W \<le> r"
    using ih unfolding window_sound_def a' by simp
  have mid: "max a r1 < r \<Longrightarrow> r < b \<Longrightarrow> r = W"
  proof -
    assume "max a r1 < r" and "r < b"
    then have "r = max (max M r1) W"
      using ih unfolding window_sound_def a' by simp
    moreover have "a < r" and "r1 < r"
      using \<open>max a r1 < r\<close> by simp_all
    moreover have "M < r"
      using assms(3) \<open>a < r\<close> by (rule le_less_trans)
    ultimately show "r = W"
      by (auto simp: max_def split: if_splits)
  qed
  have high: "b \<le> r \<Longrightarrow> r \<le> W"
  proof -
    assume "b \<le> r"
    then have "r \<le> max (max M r1) W"
      using ih unfolding window_sound_def by simp
    moreover have "r1 < r"
      using r1b \<open>b \<le> r\<close> by (rule less_le_trans)
    moreover have "M < r"
      using assms(2,3) \<open>b \<le> r\<close> by (meson le_less_trans less_le_trans)
    ultimately show "r \<le> W"
      by (auto simp: max_def split: if_splits)
  qed
  have g1: "r \<le> a \<Longrightarrow> max M (max v1 W) \<le> r"
    using low v1 r1r Mr by (auto simp: le_max_iff_disj)
  have g2: "a < r \<Longrightarrow> r < b \<Longrightarrow> r = max M (max v1 W)"
  proof -
    assume ar: "a < r" and rb: "r < b"
    show "r = max M (max v1 W)"
    proof (cases "r \<le> max a r1")
      case True
      then have "r \<le> r1"
        using ar by (simp add: max_def split: if_splits)
      then have "r = r1"
        using r1r by simp
      then have "r1 = v1"
        using c ar rb unfolding window_sound_def by simp
      moreover have "W \<le> r"
        using low True .
      ultimately show ?thesis
        using \<open>r = r1\<close> Mr by (auto simp: max_def)
    next
      case False
      then have "max a r1 < r"
        by (simp only: not_le)
      then have "r = W"
        using rb by (rule mid)
      then show ?thesis
        using Mr v1 r1r by (auto simp: max_def)
    qed
  qed
  have g3: "b \<le> r \<Longrightarrow> r \<le> max M (max v1 W)"
    using high by (simp add: le_max_iff_disj)
  show ?thesis
    unfolding window_sound_def using g1 g2 g3 by blast
qed

lemma max_loop_sound:
  assumes "undo_reverts C" and "\<And>g a b. fst (child g a b) = g"
    and child_ok: "\<And>m a b. m \<in> set (moves C game) \<Longrightarrow> a < b \<Longrightarrow>
          window_sound a b (val m) (score (snd (child (move C game m) a b)))"
    and "set ms \<subseteq> set (moves C game)" and "alpha < beta" and "maxScore \<le> alpha"
  shows "window_sound alpha beta (max maxScore (top_val val ms))
           (score (snd (max_loop C child ms game alpha beta maxScore bestMove)))"
  using assms(4,5,6)
proof (induction ms arbitrary: alpha maxScore bestMove)
  case Nil
  then show ?case by (auto simp: top_val_def window_sound_def)
next
  case (Cons m rest)
  define r1 where "r1 = score (snd (child (move C game m) alpha beta))"
  define M' where "M' = max maxScore r1"
  define B' where "B' = (if r1 > maxScore then Some m else bestMove)"
  have m_in: "m \<in> set (moves C game)" and rest_in: "set rest \<subseteq> set (moves C game)"
    using Cons.prems(1) by auto
  have c1: "window_sound alpha beta (val m) r1"
    unfolding r1_def using child_ok [OF m_in Cons.prems(2)] .
  have top: "top_val val (m # rest) = max (val m) (top_val val rest)"
    by (simp add: top_val_def)
  have step: "max_loop C child (m # rest) game alpha beta maxScore bestMove =
      (if beta \<le> max alpha M' then (game, \<lparr>score = M', moveSan = map_option san B'\<rparr>)
       else max_loop C child rest game (max alpha M') beta M' B')"
    using max_loop_step [of C child m game rest alpha beta maxScore bestMove] assms(1,2) m_in
    by (simp add: Let_def r1_def M'_def B'_def)
  show ?case
  proof (cases "beta \<le> max alpha M'")
    case True
    have "window_sound alpha beta (max maxScore (max (val m) (top_val val rest))) (max maxScore r1)"
      by (rule window_max_break [OF c1 Cons.prems(2,3)]) (use True in \<open>simp add: M'_def\<close>)
    then show ?thesis
      using True step top by (simp add: M'_def)
  next
    case False
    have ih: "window_sound (max alpha M') beta (max M' (top_val val rest))
               (score (snd (max_loop C child rest game (max alpha M') beta M' B')))"
      by (rule Cons.IH) (use rest_in False in \<open>simp_all add: not_le\<close>)
    have ge: "M' \<le> score (snd (max_loop C child rest game (max alpha M') beta M' B'))"
      by (rule max_loop_ge)
    have "window_sound alpha beta (max maxScore (max (val m) (top_val val rest)))
            (score (snd (max_loop C child rest game (max alpha M') beta M' B')))"
      by (rule window_max_continue [OF c1 Cons.prems(2,3)])
         (use False ih ge in \<open>simp_all add: M'_def\<close>)
    then show ?thesis
      using False step top by simp
  qed
qed


lemma window_min_break:
  assumes c: "window_sound a b v1 r1" and "a < b" and "b \<le> M" and "min b (min M r1) \<le> a"
  shows "window_sound a b (min M (min v1 W)) (min M r1)"
proof -
  have "r1 \<le> a"
    using assms(2,3,4) by (auto simp: min_def split: if_splits)
  then have "v1 \<le> r1" and "min M r1 = r1" and "\<not> a < r1" and "\<not> b \<le> r1"
    using c assms(2,3) by (auto simp: window_sound_def min_def)
  then show ?thesis
    by (simp add: window_sound_def min_le_iff_disj)
qed

lemma window_min_continue:
  assumes c: "window_sound a b v1 r1" and "a < b" and "b \<le> M"
    and nb: "\<not> min b (min M r1) \<le> a"
    and ih: "window_sound a (min b (min M r1)) (min (min M r1) W) r" and le: "r \<le> min M r1"
  shows "window_sound a b (min M (min v1 W)) r"
proof -
  have ar1: "a < r1"
    using nb by (simp add: not_le)
  have v1: "r1 \<le> v1"
    using c ar1 unfolding window_sound_def by (cases "b \<le> r1") auto
  have b': "min b (min M r1) = min b r1"
    using assms(3) by (simp add: min.absorb1 flip: min.assoc)
  have rM: "r \<le> M" and rr1: "r \<le> r1"
    using le by simp_all
  have high: "min b r1 \<le> r \<Longrightarrow> r \<le> W"
    using ih unfolding window_sound_def b' by simp
  have mid: "r < min b r1 \<Longrightarrow> a < r \<Longrightarrow> r = W"
  proof -
    assume "r < min b r1" and "a < r"
    then have "r = min (min M r1) W"
      using ih unfolding window_sound_def b' by simp
    moreover have "r < b" and "r < r1"
      using \<open>r < min b r1\<close> by simp_all
    moreover have "r < M"
      using \<open>r < b\<close> assms(3) by (rule less_le_trans)
    ultimately show "r = W"
      by (auto simp: min_def split: if_splits)
  qed
  have low: "r \<le> a \<Longrightarrow> W \<le> r"
  proof -
    assume "r \<le> a"
    then have "min (min M r1) W \<le> r"
      using ih unfolding window_sound_def by simp
    moreover have "r < r1"
      using \<open>r \<le> a\<close> ar1 by (rule le_less_trans)
    moreover have "r < M"
      using assms(2,3) \<open>r \<le> a\<close> by (meson le_less_trans less_le_trans)
    ultimately show "W \<le> r"
      by (auto simp: min_def split: if_splits)
  qed
  have g3: "b \<le> r \<Longrightarrow> r \<le> min M (min v1 W)"
    using high v1 rr1 rM by (auto simp: min_le_iff_disj)
  have g2: "a < r \<Longrightarrow> r < b \<Longrightarrow> r = min M (min v1 W)"
  proof -
    assume ar: "a < r" and rb: "r < b"
    show "r = min M (min v1 W)"
    proof (cases "min b r1 \<le> r")
      case True
      then have "r1 \<le> r"
        using rb by (simp add: min_def split: if_splits)
      then have "r = r1"
        using rr1 by simp
      then have "r1 = v1"
        using c ar rb unfolding window_sound_def by simp
      moreover have "r \<le> W"
        using high True .
      ultimately show ?thesis
        using \<open>r = r1\<close> rM by (auto simp: min_def)
    next
      case False
      then have "r < min b r1"
        by (simp only: not_le)
      then have "r = W"
        using ar by (rule mid)
      then show ?thesis
        using rM v1 rr1 by (auto simp: min_def)
    qed
  qed
  have g1: "r \<le> a \<Longrightarrow> min M (min v1 W) \<le> r"
    using low by (simp add: min_le_iff_disj)
  show ?thesis
    unfolding window_sound_def using g1 g2 g3 by blast
qed

lemma min_loop_sound:
  assumes "undo_reverts C" and "\<And>g a b. fst (child g a b) = g"
    and child_ok: "\<And>m a b. m \<in> set (moves C game) \<Longrightarrow> a < b \<Longrightarrow>
          window_sound a b (val m) (score (snd (child (move C game m) a b)))"
    and "set ms \<subseteq> set (moves C game)" and "alpha < beta" and "beta \<le> minScore"
  shows "window_sound alpha beta (min minScore (bottom_val val ms))
           (score (snd (min_loop C child ms game alpha beta minScore bestMove)))"
  using assms(4,5,6)
proof (induction ms arbitrary: beta minScore bestMove)
  case Nil
  then show ?case by (auto simp: bottom_val_def window_sound_def)
next
  case (Cons m rest)
  define r1 where "r1 = score (snd (child (move C game m) alpha beta))"
  define M' where "M' = min minScore r1"
  define B' where "B' = (if r1 < minScore then Some m else bestMove)"
  have m_in: "m \<in> set (moves C game)" and rest_in: "set rest \<subseteq> set (moves C game)"
    using Cons.prems(1) by auto
  have c1: "window_sound alpha beta (val m) r1"
    unfolding r1_def using child_ok [OF m_in Cons.prems(2)] .
  have bot: "bottom_val val (m # rest) = min (val m) (bottom_val val rest)"
    by (simp add: bottom_val_def)
  have step: "min_loop C child (m # rest) game alpha beta minScore bestMove =
      (if min beta M' \<le> alpha then (game, \<lparr>score = M', moveSan = map_option san B'\<rparr>)
       else min_loop C child rest game alpha (min beta M') M' B')"
    using min_loop_step [of C child m game rest alpha beta minScore bestMove] assms(1,2) m_in
    by (simp add: Let_def r1_def M'_def B'_def)
  show ?case
  proof (cases "min beta M' \<le> alpha")
    case True
    have "window_sound alpha beta (min minScore (min (val m) (bottom_val val rest))) (min minScore r1)"
      by (rule window_min_break [OF c1 Cons.prems(2,3)]) (use True in \<open>simp add: M'_def\<close>)
    then show ?thesis
      using True step bot by (simp add: M'_def)
  next
    case False
    have ih: "window_sound alpha (min beta M') (min M' (bottom_val val rest))
               (score (snd (min_loop C child rest game alpha (min beta M') M' B')))"
      by (rule Cons.IH) (use rest_in False in \<open>simp_all add: not_le\<close>)
    have le: "score (snd (min_loop C child rest game alpha (min beta M') M' B')) \<le> M'"
      by (rule min_loop_le)
    have "window_sound alpha beta (min minScore (min (val m) (bottom_val val rest)))
            (score (snd (min_loop C child rest game alpha (min beta M') M' B')))"
      by (rule window_min_continue [OF c1 Cons.prems(2,3)])
         (use False ih le in \<open>simp_all add: M'_def\<close>)
    then show ?thesis
      using False step bot by simp
  qed
qed


lemma minimax_sound:
  assumes "undo_reverts C" and "alpha < beta"
  shows "window_sound alpha beta (score (exhaustive C game depth isMax))
           (score (snd (minimax C game depth alpha beta isMax)))"
  using assms(2)
proof (induction depth arbitrary: game alpha beta isMax)
  case 0
  show ?case by (simp add: window_sound_def)
next
  case (Suc d)
  show ?case
  proof (cases "isGameOver C game")
    case True
    then show ?thesis by (simp add: window_sound_def)
  next
    case False
    show ?thesis
    proof (cases isMax)
      case True
      have "window_sound alpha beta
              (max NegInfinity
                (top_val (\<lambda>mv. score (exhaustive C (move C game mv) d False)) (moves C game)))
              (score (snd (max_loop C (\<lambda>g a b. minimax C g d a b False) (moves C game) game
                             alpha beta NegInfinity None)))"
        by (rule max_loop_sound [OF assms(1)])
           (use Suc.IH Suc.prems minimax_fst [OF assms(1)] in simp_all)
      then show ?thesis
        using True \<open>\<not> isGameOver C game\<close> by (simp add: exhaustive_max_score)
    next
      case False
      have "window_sound alpha beta
              (min Infinity
                (bottom_val (\<lambda>mv. score (exhaustive C (move C game mv) d True)) (moves C game)))
              (score (snd (min_loop C (\<lambda>g a b. minimax C g d a b True) (moves C game) game
                             alpha beta Infinity None)))"
        by (rule min_loop_sound [OF assms(1)])
           (use Suc.IH Suc.prems minimax_fst [OF assms(1)] in simp_all)
      then show ?thesis
        using False \<open>\<not> isGameOver C game\<close> by (simp add: exhaustive_min_score)
    qed
  qed
qed

lemma max_loop_full_window:
  assumes "undo_reverts C" and "\<And>g a b. fst (child g a b) = g"
    and child_ok: "\<And>m a b. m \<in> set (moves C game) \<Longrightarrow> a < b \<Longrightarrow>
          window_sound a b (val m) (score (snd (child (move C game m) a b)))"
    and "set ms \<subseteq> set (moves C game)" and "maxScore \<noteq> Infinity"
  shows "snd (max_loop C child ms game maxScore Infinity maxScore bestMove)
           = exhaustive_max val ms maxScore bestMove"
  using assms(4,5)
proof (induction ms arbitrary: maxScore bestMove)
  case Nil
  show ?case by simp
next
  case (Cons m rest)
  define r1 where "r1 = score (snd (child (move C game m) maxScore Infinity))"
  define M' where "M' = max maxScore r1"
  define B' where "B' = (if r1 > maxScore then Some m else bestMove)"
  have m_in: "m \<in> set (moves C game)" and rest_in: "set rest \<subseteq> set (moves C game)"
    using Cons.prems(1) by auto
  have lt: "maxScore < Infinity"
    using Cons.prems(2) by (cases maxScore) simp_all
  have c1: "window_sound maxScore Infinity (val m) r1"
    unfolding r1_def using child_ok [OF m_in lt] .
  have same: "(val m > maxScore) = (r1 > maxScore)" and eq: "r1 > maxScore \<Longrightarrow> val m = r1"
    using c1 lt unfolding window_sound_def by (cases "r1 = Infinity"; force simp: not_le [symmetric])+
  have step: "max_loop C child (m # rest) game maxScore Infinity maxScore bestMove =
      (if Infinity \<le> max maxScore M' then (game, \<lparr>score = M', moveSan = map_option san B'\<rparr>)
       else max_loop C child rest game (max maxScore M') Infinity M' B')"
    using max_loop_step [of C child m game rest maxScore Infinity maxScore bestMove] assms(1,2) m_in
    by (simp add: Let_def r1_def M'_def B'_def)
  have mm: "max maxScore M' = M'"
    by (simp add: M'_def)
  have ex: "exhaustive_max val (m # rest) maxScore bestMove = exhaustive_max val rest M' B'"
    using same eq by (auto simp: M'_def B'_def max_def)
  show ?case
  proof (cases "M' = Infinity")
    case True
    then show ?thesis
      using step ex mm by (simp add: exhaustive_max_at_top)
  next
    case False
    have "snd (max_loop C child rest game M' Infinity M' B') = exhaustive_max val rest M' B'"
      by (rule Cons.IH) (use rest_in False in simp_all)
    then show ?thesis
      using step ex mm False by simp
  qed
qed


lemma min_loop_full_window:
  assumes "undo_reverts C" and "\<And>g a b. fst (child g a b) = g"
    and child_ok: "\<And>m a b. m \<in> set (moves C game) \<Longrightarrow> a < b \<Longrightarrow>
          window_sound a b (val m) (score (snd (child (move C game m) a b)))"
    and "set ms \<subseteq> set (moves C game)" and "minScore \<noteq> NegInfinity"
  shows "snd (min_loop C child ms game NegInfinity minScore minScore bestMove)
           = exhaustive_min val ms minScore bestMove"
  using assms(4,5)
proof (induction ms arbitrary: minScore bestMove)
  case Nil
  show ?case by simp
next
  case (Cons m rest)
  define r1 where "r1 = score (snd (child (move C game m) NegInfinity minScore))"
  define M' where "M' = min minScore r1"
  define B' where "B' = (if r1 < minScore then Some m else bestMove)"
  have m_in: "m \<in> set (moves C game)" and rest_in: "set rest \<subseteq> set (moves C game)"
    using Cons.prems(1) by auto
  have lt: "NegInfinity < minScore"
    using Cons.prems(2) by (cases minScore) simp_all
  have c1: "window_sound NegInfinity minScore (val m) r1"
    unfolding r1_def using child_ok [OF m_in lt] .
  have same: "(val m < minScore) = (r1 < minScore)" and eq: "r1 < minScore \<Longrightarrow> val m = r1"
    using c1 lt unfolding window_sound_def
    by (cases "r1 = NegInfinity"; force simp: not_le [symmetric])+
  have step: "min_loop C child (m # rest) game NegInfinity minScore minScore bestMove =
      (if min minScore M' \<le> NegInfinity
       then (game, \<lparr>score = M', moveSan = map_option san B'\<rparr>)
       else min_loop C child rest game NegInfinity (min minScore M') M' B')"
    using min_loop_step [of C child m game rest NegInfinity minScore minScore bestMove]
      assms(1,2) m_in
    by (simp add: Let_def r1_def M'_def B'_def)
  have mm: "min minScore M' = M'"
    by (simp add: M'_def)
  have ex: "exhaustive_min val (m # rest) minScore bestMove = exhaustive_min val rest M' B'"
    using same eq by (auto simp: M'_def B'_def min_def)
  show ?case
  proof (cases "M' = NegInfinity")
    case True
    then show ?thesis
      using step ex mm by (simp add: exhaustive_min_at_bottom)
  next
    case False
    have "snd (min_loop C child rest game NegInfinity M' M' B') = exhaustive_min val rest M' B'"
      by (rule Cons.IH) (use rest_in False in simp_all)
    then show ?thesis
      using step ex mm False by simp
  qed
qed

text \<open>
  Claim C5. When \<^verbatim>\<open>undo\<close> takes back the move just made, \<open>minimax\<close> started with the
  window from \<^verbatim>\<open>-Infinity\<close> to \<^verbatim>\<open>Infinity\<close> returns the score and the move of exhaustive
  minimax over the same enumeration order, for every position, depth and side.
\<close>

theorem pruning_preserves_result:
  assumes "undo_reverts C"
  shows "snd (minimax C game depth NegInfinity Infinity isMaximizingPlayer)
           = exhaustive C game depth isMaximizingPlayer"
proof (cases depth)
  case 0
  then show ?thesis by simp
next
  case (Suc d)
  show ?thesis
  proof (cases "isGameOver C game")
    case True
    then show ?thesis using Suc by simp
  next
    case False
    show ?thesis
    proof (cases isMaximizingPlayer)
      case True
      have "snd (max_loop C (\<lambda>g a b. minimax C g d a b False) (moves C game) game
                   NegInfinity Infinity NegInfinity None)
            = exhaustive_max (\<lambda>mv. score (exhaustive C (move C game mv) d False))
                (moves C game) NegInfinity None"
        by (rule max_loop_full_window [OF assms])
           (use minimax_sound [OF assms] minimax_fst [OF assms] in simp_all)
      then show ?thesis
        using True Suc \<open>\<not> isGameOver C game\<close> by simp
    next
      case False
      have "snd (min_loop C (\<lambda>g a b. minimax C g d a b True) (moves C game) game
                   NegInfinity Infinity Infinity None)
            = exhaustive_min (\<lambda>mv. score (exhaustive C (move C game mv) d True))
                (moves C game) Infinity None"
        by (rule min_loop_full_window [OF assms])
           (use minimax_sound [OF assms] minimax_fst [OF assms] in simp_all)
      then show ?thesis
        using False Suc \<open>\<not> isGameOver C game\<close> by simp
    qed
  qed
qed

theorem pruning_preserves_result_witness:
  "exhaustive chess (start back_rank_fen) (Suc 0) True
     = \<lparr>score = Num (-135), moveSan = Some ''Kd7''\<rparr>"
proof -
  have "undo_reverts chess"
    by (simp add: chess_def table_undo_reverts)
  then show ?thesis
    using pruning_preserves_result [of chess "start back_rank_fen" "Suc 0" True]
    by (simp add: start_def back_rank_maximizing del: minimax.simps exhaustive.simps)
qed

section \<open>The claims about \<open>findBestMove\<close>\<close>

text \<open>
  What \<open>findBestMove\<close> returns: the move of the search on the copy, searched as maximizing
  exactly when the side to move is the computer's colour.
\<close>

lemma findBestMove_result:
  "snd (findBestMove C store game depth computerColor) =
    (case moveSan (snd (minimax C (load C (fen C (store ! game))) depth NegInfinity Infinity
                          (turn C (load C (fen C (store ! game))) = computerColor))) of
       None \<Rightarrow> None
     | Some s \<Rightarrow> if s = [] then None else Some s)"
  by (simp add: findBestMove_def Let_def split_beta)

text \<open>
  Claim C4. With the computer's colour to move, the root should be searched as maximizing
  when the computer is White and as minimizing when it is Black. The code passes
  \<^verbatim>\<open>gameCopy.turn() === computerColor\<close>, which is true for either colour. In the back-rank
  position Black is to move and mates with Rxe1; searched as minimizing the root returns
  that move, and \<open>findBestMove\<close> for the Black computer returns Kd7.
\<close>

theorem computer_black_maximizes:
  "turn chess (load chess (fen chess (start back_rank_fen))) = Black
   \<and> snd (findBestMove chess [start back_rank_fen] 0 1 Black) = Some ''Kd7''
   \<and> moveSan (snd (minimax chess (start back_rank_fen) 1 NegInfinity Infinity False))
       = Some ''Rxe1#''"
  by (simp add: findBestMove_def start_def chess_methods(12,13) back_rank_turn
      back_rank_maximizing back_rank_minimizing del: minimax.simps)

text \<open>
  Claim C10. \<open>findBestMove\<close> leaves every game object of the caller as it was: the store
  after the call is the store before it followed by one new object, the copy made from the
  game's FEN, on which alone the search ran.
\<close>

theorem findBestMove_keeps_game:
  "fst (findBestMove C store game depth computerColor)
     = store @ [fst (minimax C (load C (fen C (store ! game))) depth NegInfinity Infinity
                      (turn C (load C (fen C (store ! game))) = computerColor))]
   \<and> (game < length store \<longrightarrow>
        fst (findBestMove C store game depth computerColor) ! game = store ! game)"
  by (simp add: findBestMove_def Let_def split_beta nth_append)

theorem findBestMove_keeps_game_witness:
  "fst (findBestMove chess [start back_rank_fen] 0 1 Black) ! 0 = start back_rank_fen"
  using findBestMove_keeps_game [of chess "[start back_rank_fen]" 0 1 Black]
  by simp

end
